theory Spec2Isabelle
  imports Complex_Main
begin

section \<open>Vectors, failures and counting loops\<close>

text \<open>
  A \<^verbatim>\<open>std::vector<double>\<close> is a \<^typ>\<open>real list\<close>: a \<^verbatim>\<open>double\<close> is read as the real
  number it stands for, so \<^verbatim>\<open>+\<close>, \<^verbatim>\<open>*\<close>, \<^verbatim>\<open>/\<close> and \<^verbatim>\<open>std::pow(x, 2)\<close> are the exact
  operations of \<^typ>\<open>real\<close>. Rounding, infinities and NaN are not part of this model.

  What has no value in that reading is an \<open>error\<close>: a write through \<^verbatim>\<open>operator[]\<close> past
  the end of a vector (\<open>OutOfRange\<close>, undefined behaviour in C++), a vector constructed
  with a negative length (\<open>LengthError\<close>), a division by zero (\<open>DivisionByZero\<close>), a
  violated precondition that the callee reports (\<open>ContractViolation\<close>), and an input on
  which the description of a function whose body is not available says nothing
  (\<open>NotSpecified\<close>).
\<close>

datatype error = OutOfRange | LengthError | DivisionByZero | ContractViolation | NotSpecified

text \<open>\<^verbatim>\<open>v[i] = x\<close> on a \<^verbatim>\<open>std::vector\<close>.\<close>

definition store :: "real list \<Rightarrow> nat \<Rightarrow> real \<Rightarrow> error + real list" where
  "store v i x = (if i < length v then Inr (v[i := x]) else Inl OutOfRange)"


definition for_loop_err :: "nat \<Rightarrow> (nat \<Rightarrow> 's \<Rightarrow> error + 's) \<Rightarrow> 's \<Rightarrow> error + 's" where
  "for_loop_err n body s =
     fold (\<lambda>i r. case r of Inl e \<Rightarrow> Inl e | Inr t \<Rightarrow> body i t) [0..<n] (Inr s)"


section \<open>Grid generation (grid.cpp)\<close>



section \<open>Coefficients of the Black-Scholes generator\<close>



section \<open>Band-diagonal operators\<close>

text \<open>
  Modelled from the spec: the classes \<^verbatim>\<open>TriDiagonal\<close> and \<^verbatim>\<open>PentaDiagonal\<close> of
  \<^verbatim>\<open>band_diagonal_matrix.h\<close>, which is not among the sources. The description gives a
  square operator of order \<open>n\<close> stored as \<open>2k + 1\<close> diagonals of length \<open>n\<close> (\<open>k = 1\<close> for
  \<^verbatim>\<open>TriDiagonal\<close>, \<open>k = 2\<close> for \<^verbatim>\<open>PentaDiagonal\<close>), indexed by the offset from the main
  diagonal: \<open>diagonals ! d ! i\<close> is the coefficient of row \<open>i\<close> in column \<open>i + d - k\<close>.
  Entries that would lie outside the matrix are unused.
\<close>

record BandDiagonalMatrix =
  bandwidth :: nat
  order :: nat
  diagonals :: "real list list"

text \<open>
  Modelled from the spec: the coefficient of row \<open>i\<close> and column \<open>j\<close>, zero outside the
  band and where nothing is stored.
\<close>

definition coef :: "BandDiagonalMatrix \<Rightarrow> nat \<Rightarrow> nat \<Rightarrow> real" where
  "coef m i j =
     (let k = bandwidth m; d = j + k - i
      in if i \<le> j + k \<and> j \<le> i + k \<and> d < length (diagonals m) \<and> i < length (diagonals m ! d)
         then diagonals m ! d ! i else 0)"

text \<open>
  Modelled from the spec: row \<open>i\<close> of the matrix-vector product, from the row's stored
  coefficients and the window of \<open>v\<close> in columns \<open>max(0, i - k)\<close> to \<open>min(n - 1, i + k)\<close>.
\<close>

definition row_action :: "BandDiagonalMatrix \<Rightarrow> real list \<Rightarrow> nat \<Rightarrow> real" where
  "row_action m v i =
     (\<Sum>j \<leftarrow> [i - bandwidth m ..< min (order m) (i + bandwidth m + 1)]. coef m i j * v ! j)"

text \<open>
  Modelled from the spec: \<^verbatim>\<open>action(v)\<close>, the matrix-vector product row by row, which
  fails with a precondition violation if the length of \<open>v\<close> is not the order.
\<close>

definition action :: "BandDiagonalMatrix \<Rightarrow> real list \<Rightarrow> error + real list" where
  "action m v =
     (if length v \<noteq> order m then Inl ContractViolation
      else Inr (map (row_action m v) [0..<order m]))"

text \<open>
  Modelled from the spec: \<^verbatim>\<open>d1dx1::uniform::c2b1\<close>, declared in \<^verbatim>\<open>derivatives.h\<close> and
  defined in a file that is not among the sources. On a grid of constant spacing \<open>h\<close> the
  interior rows are the central difference \<open>(-1/2h, 0, 1/2h)\<close>, the first row is the
  forward difference \<open>(-1/h, 1/h)\<close> of first order and the last row its mirror image, the
  backward difference. A grid of fewer than three points is a precondition violation.
  The spacing is read off the first two grid points.
\<close>

definition c2b1 :: "real list \<Rightarrow> error + BandDiagonalMatrix" where
  "c2b1 grid =
     (let n = length grid in
      if n < 3 then Inl ContractViolation
      else
        let h = grid ! 1 - grid ! 0;
            sub = [0] @ replicate (n - 2) (- 1 / (2 * h)) @ [- 1 / h];
            main = [- 1 / h] @ replicate (n - 2) 0 @ [1 / h];
            super = [1 / h] @ replicate (n - 2) (1 / (2 * h)) @ [0]
        in Inr \<lparr>bandwidth = 1, order = n, diagonals = [sub, main, super]\<rparr>)"


section \<open>Applying a 1-D operator along one axis of a flattened 2-D field\<close>

text \<open>
  Modelled from the spec: \<^verbatim>\<open>action_2d\<close> of \<^verbatim>\<open>utility.h\<close>, which is not among the sources.
  A 2-D field is flattened with the entry \<open>(ix, iy)\<close> at index \<open>ix * n_y + iy\<close>. The call
  \<^verbatim>\<open>action_2d(n_a, n_b, dimension, inverse, matrix, func)\<close> is read as: the field has
  \<open>n_b\<close> slices of \<open>n_a\<close> entries each along the axis \<open>dimension\<close> (1 for x, 2 for y), and
  the operator acts on every slice. \<open>flat_index\<close> is the position of entry \<open>k\<close> of slice
  \<open>s\<close>: along y the slice \<open>s = ix\<close> is contiguous, along x the slice \<open>s = iy\<close> has
  stride \<open>n_b = n_y\<close>.
\<close>

definition flat_index :: "nat \<Rightarrow> nat \<Rightarrow> nat \<Rightarrow> nat \<Rightarrow> nat \<Rightarrow> nat" where
  "flat_index dimension n_a n_b s k = (if dimension = 2 then s * n_a + k else k * n_b + s)"

text \<open>Modelled from the spec: slice \<open>s\<close> of the field along the axis \<open>dimension\<close>.\<close>

definition gather :: "nat \<Rightarrow> nat \<Rightarrow> nat \<Rightarrow> real list \<Rightarrow> nat \<Rightarrow> real list" where
  "gather dimension n_a n_b func s =
     map (\<lambda>k. func ! flat_index dimension n_a n_b s k) [0..<n_a]"

text \<open>
  Modelled from the spec: the results of the slices in order, or the first failure among
  them.
\<close>

fun all_slices :: "(error + real list) list \<Rightarrow> error + real list list" where
  "all_slices [] = Inr []"
| "all_slices (r # rs) =
     (case r of
        Inl e \<Rightarrow> Inl e
      | Inr v \<Rightarrow> (case all_slices rs of Inl e \<Rightarrow> Inl e | Inr vs \<Rightarrow> Inr (v # vs)))"

text \<open>
  Modelled from the spec: \<^verbatim>\<open>action_2d\<close>. Each slice goes through \<open>action\<close> and the
  results are written back to the positions the slice was read from. The description
  covers the forward action (\<^verbatim>\<open>inverse = false\<close>) on a field of \<open>n_a * n_b\<close> entries;
  it says nothing about the inverse, another axis or a field of another length, where
  this model answers \<open>NotSpecified\<close>.
\<close>

definition action_2d ::
  "nat \<Rightarrow> nat \<Rightarrow> nat \<Rightarrow> bool \<Rightarrow> BandDiagonalMatrix \<Rightarrow> real list \<Rightarrow> error + real list" where
  "action_2d n_a n_b dimension inverse' matrix func =
     (if inverse' \<or> (dimension \<noteq> 1 \<and> dimension \<noteq> 2) \<or> length func \<noteq> n_a * n_b
      then Inl NotSpecified
      else
        case all_slices (map (\<lambda>s. action matrix (gather dimension n_a n_b func s)) [0..<n_b]) of
          Inl e \<Rightarrow> Inl e
        | Inr rows \<Rightarrow>
            Inr (map (\<lambda>i. if dimension = 2 then rows ! (i div n_a) ! (i mod n_a)
                          else rows ! (i mod n_b) ! (i div n_b))
                   [0..<n_a * n_b]))"


section \<open>The mixed derivative operator (derivatives.h)\<close>

text \<open>
  \<^verbatim>\<open>template <class T1, class T2> class MixedDerivative\<close> with its three private members.
  Both template arguments are band-diagonal operators. \<^verbatim>\<open>order()\<close> returns an \<^verbatim>\<open>int\<close>;
  orders are natural numbers here and their product is not taken modulo the width of
  \<^verbatim>\<open>int\<close>.
\<close>

record mixed_derivative =
  d1dx1 :: BandDiagonalMatrix
  d1dy1 :: BandDiagonalMatrix
  prefactors :: "real list"

text \<open>The constructor: both operators are copied, the prefactors are \<open>n_x * n_y\<close> ones.\<close>

definition MixedDerivative :: "BandDiagonalMatrix \<Rightarrow> BandDiagonalMatrix \<Rightarrow> mixed_derivative" where
  "MixedDerivative d1dx1' d1dy1' =
     (let tmp = replicate (order d1dx1' * order d1dy1') 1
      in \<lparr>d1dx1 = d1dx1', d1dy1 = d1dy1', prefactors = tmp\<rparr>)"

text \<open>\<^verbatim>\<open>set_prefactors(const double scalar)\<close>.\<close>

definition set_prefactors_scalar :: "real \<Rightarrow> mixed_derivative \<Rightarrow> error + mixed_derivative" where
  "set_prefactors_scalar scalar m =
     (case for_loop_err (length (prefactors m)) (\<lambda>i p. store p i scalar) (prefactors m) of
        Inl e \<Rightarrow> Inl e
      | Inr p \<Rightarrow> Inr (m\<lparr>prefactors := p\<rparr>))"

text \<open>
  \<^verbatim>\<open>set_prefactors(coef_x, coef_y)\<close>. The write goes to \<^verbatim>\<open>prefactors[i]\<close>, with the index
  \<open>i\<close> of the outer loop. The local counter \<^verbatim>\<open>index\<close> is incremented in the inner loop
  and never read, so it is not part of the loop's state here.
\<close>

definition set_prefactors_xy ::
  "real list \<Rightarrow> real list \<Rightarrow> mixed_derivative \<Rightarrow> error + mixed_derivative" where
  "set_prefactors_xy coef_x coef_y m =
     (case for_loop_err (length coef_x)
             (\<lambda>i p. for_loop_err (length coef_y) (\<lambda>j q. store q i (coef_x ! i * coef_y ! j)) p)
             (prefactors m) of
        Inl e \<Rightarrow> Inl e
      | Inr p \<Rightarrow> Inr (m\<lparr>prefactors := p\<rparr>))"

text \<open>\<^verbatim>\<open>set_prefactors(factors)\<close>; its counter \<^verbatim>\<open>index\<close> is not read either.\<close>

definition set_prefactors_flat :: "real list \<Rightarrow> mixed_derivative \<Rightarrow> error + mixed_derivative" where
  "set_prefactors_flat factors m =
     (case for_loop_err (length factors) (\<lambda>i p. store p i (factors ! i)) (prefactors m) of
        Inl e \<Rightarrow> Inl e
      | Inr p \<Rightarrow> Inr (m\<lparr>prefactors := p\<rparr>))"

text \<open>A call of \<^verbatim>\<open>set_prefactors\<close> is one of the three overloads with its arguments.\<close>

datatype prefactor_call = Scalar real | Outer "real list" "real list" | Flat "real list"

fun set_prefactors :: "prefactor_call \<Rightarrow> mixed_derivative \<Rightarrow> error + mixed_derivative" where
  "set_prefactors (Scalar scalar) m = set_prefactors_scalar scalar m"
| "set_prefactors (Outer coef_x coef_y) m = set_prefactors_xy coef_x coef_y m"
| "set_prefactors (Flat factors) m = set_prefactors_flat factors m"

text \<open>A sequence of calls on one instance, ended by the first call that fails.\<close>

fun set_prefactors_seq :: "prefactor_call list \<Rightarrow> mixed_derivative \<Rightarrow> error + mixed_derivative" where
  "set_prefactors_seq [] m = Inr m"
| "set_prefactors_seq (c # cs) m =
     (case set_prefactors c m of Inl e \<Rightarrow> Inl e | Inr m' \<Rightarrow> set_prefactors_seq cs m')"

text \<open>
  \<^verbatim>\<open>d2dxdy(func)\<close>. The argument is passed by value and reassigned twice, then scaled in
  place; the locals \<^verbatim>\<open>vec_x\<close> and \<^verbatim>\<open>vec_y\<close> are never used. The last loop reads
  \<^verbatim>\<open>prefactors[i]\<close> and updates \<^verbatim>\<open>func[i]\<close> for every \<open>i\<close> below \<open>n_x * n_y\<close>, whatever the
  lengths of the two vectors are.
\<close>

definition d2dxdy :: "mixed_derivative \<Rightarrow> real list \<Rightarrow> error + real list" where
  "d2dxdy m func =
     (let n_x = order (d1dx1 m); n_y = order (d1dy1 m) in
      case action_2d n_y n_x 2 False (d1dy1 m) func of
        Inl e \<Rightarrow> Inl e
      | Inr func1 \<Rightarrow>
          (case action_2d n_x n_y 1 False (d1dx1 m) func1 of
             Inl e \<Rightarrow> Inl e
           | Inr func2 \<Rightarrow>
               for_loop_err (n_x * n_y)
                 (\<lambda>i f. if i < length (prefactors m) then store f i (f ! i * prefactors m ! i)
                        else Inl OutOfRange)
                 func2))"

text \<open>
  The size of the prefactor field of an instance made by the constructor, which no
  overload of \<^verbatim>\<open>set_prefactors\<close> changes.
\<close>

definition sized :: "mixed_derivative \<Rightarrow> bool" where
  "sized m = (length (prefactors m) = order (d1dx1 m) * order (d1dy1 m))"


section \<open>Loops\<close>



lemma for_loop_err_0: "for_loop_err 0 body s = Inr s"
  by (simp add: for_loop_err_def)

lemma for_loop_err_Suc:
  "for_loop_err (Suc n) body s =
     (case for_loop_err n body s of Inl e \<Rightarrow> Inl e | Inr t \<Rightarrow> body n t)"
  by (simp add: for_loop_err_def)




lemma store_length: "store v i x = Inr w \<Longrightarrow> length w = length v"
  by (auto simp: store_def split: if_splits)

lemma for_loop_err_invariant:
  assumes step: "\<And>i s t. P s \<Longrightarrow> body i s = Inr t \<Longrightarrow> P t"
    and init: "P s"
    and run: "for_loop_err n body s = Inr t"
  shows "P t"
  using run
proof (induction n arbitrary: t)
  case 0
  with init show ?case by (simp add: for_loop_err_0)
next
  case (Suc n)
  then obtain u where u: "for_loop_err n body s = Inr u" and t: "body n u = Inr t"
    by (auto simp: for_loop_err_Suc split: sum.splits)
  from Suc.IH [OF u] have "P u" .
  then show ?case using t by (rule step)
qed

lemma for_loop_err_fill:
  "k \<le> length v \<Longrightarrow>
   for_loop_err k (\<lambda>i p. store p i (f i)) v = Inr (map f [0..<k] @ drop k v)"
proof (induction k)
  case 0
  show ?case by (simp add: for_loop_err_0)
next
  case (Suc k)
  then have k: "k < length v" by simp
  have "(map f [0..<k] @ drop k v)[k := f k] = map f [0..<k] @ (drop k v)[0 := f k]"
    by (simp add: list_update_append)
  also have "(drop k v)[0 := f k] = f k # drop (Suc k) v"
    using k by (simp add: Cons_nth_drop_Suc [symmetric])
  finally show ?case using Suc k by (simp add: for_loop_err_Suc store_def)
qed


section \<open>The uniform grid\<close>





section \<open>The coefficients of the generator\<close>




section \<open>Configuring the prefactors\<close>

lemma set_prefactors_scalar_eq:
  "set_prefactors_scalar scalar m =
     Inr (m\<lparr>prefactors := replicate (length (prefactors m)) scalar\<rparr>)"
proof -
  have "map (\<lambda>i. scalar) [0..<length (prefactors m)] = replicate (length (prefactors m)) scalar"
    by (simp add: map_replicate_const)
  then show ?thesis
    using for_loop_err_fill [of "length (prefactors m)" "prefactors m" "\<lambda>i. scalar"]
    by (simp add: set_prefactors_scalar_def)
qed

lemma set_prefactors_flat_eq:
  assumes "length factors \<le> length (prefactors m)"
  shows "set_prefactors_flat factors m =
           Inr (m\<lparr>prefactors := factors @ drop (length factors) (prefactors m)\<rparr>)"
  using for_loop_err_fill [OF assms, of "\<lambda>i. factors ! i"]
  by (simp add: set_prefactors_flat_def map_nth)

lemma set_prefactors_xy_frame:
  assumes "set_prefactors_xy coef_x coef_y m = Inr m'"
  shows "d1dx1 m' = d1dx1 m \<and> d1dy1 m' = d1dy1 m
         \<and> length (prefactors m') = length (prefactors m)"
proof -
  let ?inner = "\<lambda>i p. for_loop_err (length coef_y) (\<lambda>j q. store q i (coef_x ! i * coef_y ! j)) p"
  from assms obtain p where
    p: "for_loop_err (length coef_x) ?inner (prefactors m) = Inr p"
    and m': "m' = m\<lparr>prefactors := p\<rparr>"
    by (auto simp: set_prefactors_xy_def split: sum.splits)
  have inner: "length t = length (prefactors m)"
    if "length s = length (prefactors m)" "?inner i s = Inr t" for i s t
    using that(2)
    by (rule for_loop_err_invariant [where P = "\<lambda>q. length q = length (prefactors m)", rotated 2])
      (auto simp: that(1) dest: store_length)
  have "length p = length (prefactors m)"
    using p
    by (rule for_loop_err_invariant [where P = "\<lambda>q. length q = length (prefactors m)", rotated 2])
      (auto intro: inner)
  with m' show ?thesis by simp
qed

lemma set_prefactors_frame:
  assumes "set_prefactors c m = Inr m'"
  shows "d1dx1 m' = d1dx1 m \<and> d1dy1 m' = d1dy1 m
         \<and> length (prefactors m') = length (prefactors m)"
proof (cases c)
  case (Scalar s)
  with assms show ?thesis by (auto simp: set_prefactors_scalar_eq)
next
  case (Outer cx cy)
  with assms show ?thesis by (simp add: set_prefactors_xy_frame)
next
  case (Flat fs)
  with assms obtain p where
    p: "for_loop_err (length fs) (\<lambda>i p. store p i (fs ! i)) (prefactors m) = Inr p"
    and m': "m' = m\<lparr>prefactors := p\<rparr>"
    by (auto simp: set_prefactors_flat_def split: sum.splits)
  have "length p = length (prefactors m)"
    using p
    by (rule for_loop_err_invariant [where P = "\<lambda>q. length q = length (prefactors m)", rotated 2])
      (auto dest: store_length)
  with m' show ?thesis by simp
qed

lemma set_prefactors_seq_frame:
  "set_prefactors_seq cs m = Inr m' \<Longrightarrow>
   d1dx1 m' = d1dx1 m \<and> d1dy1 m' = d1dy1 m \<and> length (prefactors m') = length (prefactors m)"
proof (induction cs arbitrary: m)
  case Nil
  then show ?case by simp
next
  case (Cons c cs)
  then obtain u where u: "set_prefactors c m = Inr u" and rest: "set_prefactors_seq cs u = Inr m'"
    by (auto split: sum.splits)
  from set_prefactors_frame [OF u] Cons.IH [OF rest] show ?case by simp
qed

lemma sized_MixedDerivative: "sized (MixedDerivative dx dy)"
  by (simp add: sized_def MixedDerivative_def)

lemma sized_set_prefactors_seq:
  "sized m \<Longrightarrow> set_prefactors_seq cs m = Inr m' \<Longrightarrow> sized m'"
  using set_prefactors_seq_frame [of cs m m'] by (simp add: sized_def)


text \<open>
  Claim C8: for every scalar \<open>s\<close>, after \<^verbatim>\<open>set_prefactors(s)\<close> every one of the
  \<open>n_x * n_y\<close> entries of the prefactor field equals \<open>s\<close>. The instance is one whose
  prefactor field has the size the constructor gave it.
\<close>

theorem set_prefactors_scalar_all:
  assumes "sized m"
  shows "\<exists>m'. set_prefactors_scalar s m = Inr m'
           \<and> prefactors m' = replicate (order (d1dx1 m) * order (d1dy1 m)) s"
  using assms by (simp add: set_prefactors_scalar_eq sized_def)

theorem set_prefactors_scalar_all_witness:
  "sized (MixedDerivative
            \<lparr>bandwidth = 1, order = 3, diagonals = [[0, - 1 / 2, - 1], [- 1, 0, 1], [1, 1 / 2, 0]]\<rparr>
            \<lparr>bandwidth = 1, order = 2, diagonals = [[0, - 1], [- 1, 1], [1, 0]]\<rparr>)
   \<and> (\<exists>m'. set_prefactors_scalar 7
               (MixedDerivative
                  \<lparr>bandwidth = 1, order = 3,
                     diagonals = [[0, - 1 / 2, - 1], [- 1, 0, 1], [1, 1 / 2, 0]]\<rparr>
                  \<lparr>bandwidth = 1, order = 2, diagonals = [[0, - 1], [- 1, 1], [1, 0]]\<rparr>) = Inr m'
             \<and> prefactors m' = [7, 7, 7, 7, 7, 7])"
proof -
  let ?m = "MixedDerivative
              \<lparr>bandwidth = 1, order = 3, diagonals = [[0, - 1 / 2, - 1], [- 1, 0, 1], [1, 1 / 2, 0]]\<rparr>
              \<lparr>bandwidth = 1, order = 2, diagonals = [[0, - 1], [- 1, 1], [1, 0]]\<rparr>"
  have h: "sized ?m" by (simp add: sized_def MixedDerivative_def)
  from set_prefactors_scalar_all [OF h, of 7] show ?thesis
    using h by (simp add: MixedDerivative_def eval_nat_numeral)
qed

text \<open>
  Claim C9: for every vector \<open>factors\<close> of length \<open>m < n_x * n_y\<close>,
  \<^verbatim>\<open>set_prefactors(factors)\<close> overwrites only the prefactor entries at the indices
  \<open>0, \<dots>, m - 1\<close> with the entries of \<open>factors\<close>, and every entry at an index \<open>\<ge> m\<close>
  keeps its previous value.
\<close>

theorem set_prefactors_flat_short:
  assumes "sized m" and "length factors < order (d1dx1 m) * order (d1dy1 m)"
  shows "\<exists>m'. set_prefactors_flat factors m = Inr m'
           \<and> length (prefactors m') = order (d1dx1 m) * order (d1dy1 m)
           \<and> (\<forall>i < length factors. prefactors m' ! i = factors ! i)
           \<and> (\<forall>i. length factors \<le> i \<and> i < order (d1dx1 m) * order (d1dy1 m)
                  \<longrightarrow> prefactors m' ! i = prefactors m ! i)"
proof -
  from assms have le: "length factors \<le> length (prefactors m)"
    by (simp add: sized_def)
  let ?p = "factors @ drop (length factors) (prefactors m)"
  have run: "set_prefactors_flat factors m = Inr (m\<lparr>prefactors := ?p\<rparr>)"
    using le by (rule set_prefactors_flat_eq)
  have len: "length ?p = order (d1dx1 m) * order (d1dy1 m)"
    using assms by (simp add: sized_def)
  have low: "?p ! i = factors ! i" if "i < length factors" for i
    using that by (simp add: nth_append)
  have high: "?p ! i = prefactors m ! i"
    if "length factors \<le> i" "i < order (d1dx1 m) * order (d1dy1 m)" for i
    using that le by (simp add: nth_append)
  from run len low high show ?thesis by simp
qed

theorem set_prefactors_flat_short_witness:
  "sized (MixedDerivative
            \<lparr>bandwidth = 1, order = 3, diagonals = [[0, - 1 / 2, - 1], [- 1, 0, 1], [1, 1 / 2, 0]]\<rparr>
            \<lparr>bandwidth = 1, order = 2, diagonals = [[0, - 1], [- 1, 1], [1, 0]]\<rparr>)
   \<and> length [4, 5 :: real] < 3 * 2
   \<and> (\<exists>m'. set_prefactors_flat [4, 5]
               (MixedDerivative
                  \<lparr>bandwidth = 1, order = 3,
                     diagonals = [[0, - 1 / 2, - 1], [- 1, 0, 1], [1, 1 / 2, 0]]\<rparr>
                  \<lparr>bandwidth = 1, order = 2, diagonals = [[0, - 1], [- 1, 1], [1, 0]]\<rparr>) = Inr m'
             \<and> prefactors m' = [4, 5, 1, 1, 1, 1])"
proof -
  let ?m = "MixedDerivative
              \<lparr>bandwidth = 1, order = 3, diagonals = [[0, - 1 / 2, - 1], [- 1, 0, 1], [1, 1 / 2, 0]]\<rparr>
              \<lparr>bandwidth = 1, order = 2, diagonals = [[0, - 1], [- 1, 1], [1, 0]]\<rparr>"
  have h: "sized ?m" by (simp add: sized_def MixedDerivative_def)
  have l: "length [4, 5 :: real] < order (d1dx1 ?m) * order (d1dy1 ?m)"
    by (simp add: MixedDerivative_def)
  from set_prefactors_flat_short [OF h l] obtain m' where
    run: "set_prefactors_flat [4, 5] ?m = Inr m'"
    and len: "length (prefactors m') = order (d1dx1 ?m) * order (d1dy1 ?m)"
    and low: "\<forall>i < length [4, 5 :: real]. prefactors m' ! i = [4, 5] ! i"
    and high: "\<forall>i. length [4, 5 :: real] \<le> i \<and> i < order (d1dx1 ?m) * order (d1dy1 ?m)
                  \<longrightarrow> prefactors m' ! i = prefactors ?m ! i"
    by blast
  have "prefactors m' = [4, 5, 1, 1, 1, 1]"
  proof (rule nth_equalityI)
    show "length (prefactors m') = length [4, 5, 1, 1, 1, 1 :: real]"
      using len by (simp add: MixedDerivative_def)
  next
    fix i assume "i < length (prefactors m')"
    then have i: "i < 6" using len by (simp add: MixedDerivative_def)
    then consider "i = 0" | "i = 1" | "i = 2" | "i = 3" | "i = 4" | "i = 5" by linarith
    then show "prefactors m' ! i = [4, 5, 1, 1, 1, 1] ! i"
      using low high by cases (simp_all add: MixedDerivative_def eval_nat_numeral)
  qed
  with run h show ?thesis by simp
qed

section \<open>The overload with two coefficient vectors\<close>

lemma inner_loop_last:
  "i < length p \<Longrightarrow>
   for_loop_err n (\<lambda>j q. store q i (c j)) p = Inr (if n = 0 then p else p[i := c (n - 1)])"
  by (induction n) (simp_all add: for_loop_err_0 for_loop_err_Suc store_def)

lemma outer_loop_rows:
  assumes "coef_y \<noteq> []"
  shows "k \<le> length p \<Longrightarrow>
    for_loop_err k
      (\<lambda>i p. for_loop_err (length coef_y) (\<lambda>j q. store q i (coef_x ! i * coef_y ! j)) p) p =
    Inr (map (\<lambda>i. coef_x ! i * last coef_y) [0..<k] @ drop k p)"
proof (induction k)
  case 0
  show ?case by (simp add: for_loop_err_0)
next
  case (Suc k)
  then have k: "k < length p" by simp
  let ?q = "map (\<lambda>i. coef_x ! i * last coef_y) [0..<k] @ drop k p"
  have kq: "k < length ?q" using k by simp
  have last: "coef_y ! (length coef_y - 1) = last coef_y"
    using assms by (simp add: last_conv_nth)
  have "?q[k := coef_x ! k * last coef_y] =
        map (\<lambda>i. coef_x ! i * last coef_y) [0..<k] @ (drop k p)[0 := coef_x ! k * last coef_y]"
    by (simp add: list_update_append)
  also have "(drop k p)[0 := coef_x ! k * last coef_y] = coef_x ! k * last coef_y # drop (Suc k) p"
    using k by (simp add: Cons_nth_drop_Suc [symmetric])
  finally have upd: "?q[k := coef_x ! k * last coef_y] =
      map (\<lambda>i. coef_x ! i * last coef_y) [0..<Suc k] @ drop (Suc k) p"
    by simp
  have "for_loop_err (length coef_y) (\<lambda>j q. store q k (coef_x ! k * coef_y ! j)) ?q =
        Inr (?q[k := coef_x ! k * last coef_y])"
    using inner_loop_last [OF kq, of "length coef_y" "\<lambda>j. coef_x ! k * coef_y ! j"] assms last
    by simp
  with Suc k upd show ?case
    by (simp add: for_loop_err_Suc)
qed

lemma set_prefactors_xy_eq:
  assumes "coef_y \<noteq> []" and "length coef_x \<le> length (prefactors m)"
  shows "set_prefactors_xy coef_x coef_y m =
           Inr (m\<lparr>prefactors := map (\<lambda>x. x * last coef_y) coef_x
                                  @ drop (length coef_x) (prefactors m)\<rparr>)"
proof -
  have eq: "map (\<lambda>i. coef_x ! i * last coef_y) [0..<length coef_x] =
            map (\<lambda>x. x * last coef_y) coef_x"
    by (rule nth_equalityI) simp_all
  have "for_loop_err (length coef_x)
          (\<lambda>i p. for_loop_err (length coef_y) (\<lambda>j q. store q i (coef_x ! i * coef_y ! j)) p)
          (prefactors m) =
        Inr (map (\<lambda>x. x * last coef_y) coef_x @ drop (length coef_x) (prefactors m))"
    unfolding eq [symmetric] using assms by (rule outer_loop_rows)
  then show ?thesis
    unfolding set_prefactors_xy_def by simp
qed

text \<open>
  Claim C1: for coefficient vectors \<open>coef_x\<close> of length \<open>n_x\<close> and \<open>coef_y\<close> of length \<open>n_y\<close>,
  after \<^verbatim>\<open>set_prefactors(coef_x, coef_y)\<close> the prefactor at every flattened index
  \<open>ix * n_y + iy\<close> equals \<open>coef_x[ix] * coef_y[iy]\<close>. On two operators of order 3 with
  \<open>coef_x = [2, 3, 5]\<close> and \<open>coef_y = [7, 11, 13]\<close> the code leaves
  \<open>[26, 39, 65, 1, 1, 1, 1, 1, 1]\<close>: the entry at index \<open>0 * 3 + 0\<close> is \<open>2 * 13\<close> and not
  \<open>2 * 7\<close>, and the entries from index 3 on were never written.
\<close>

theorem set_prefactors_xy_not_outer_product:
  "set_prefactors_xy [2, 3, 5] [7, 11, 13]
     (MixedDerivative
        \<lparr>bandwidth = 1, order = 3, diagonals = [[0, - 1 / 2, - 1], [- 1, 0, 1], [1, 1 / 2, 0]]\<rparr>
        \<lparr>bandwidth = 1, order = 3, diagonals = [[0, - 1 / 2, - 1], [- 1, 0, 1], [1, 1 / 2, 0]]\<rparr>) =
   Inr \<lparr>d1dx1 = \<lparr>bandwidth = 1, order = 3,
                  diagonals = [[0, - 1 / 2, - 1], [- 1, 0, 1], [1, 1 / 2, 0]]\<rparr>,
        d1dy1 = \<lparr>bandwidth = 1, order = 3,
                  diagonals = [[0, - 1 / 2, - 1], [- 1, 0, 1], [1, 1 / 2, 0]]\<rparr>,
        prefactors = [26, 39, 65, 1, 1, 1, 1, 1, 1]\<rparr>
   \<and> [26, 39, 65, 1, 1, 1, 1, 1, 1] ! (0 * 3 + 0) \<noteq> [2, 3, 5] ! 0 * [7, 11, 13 :: real] ! 0"
  by (simp add: set_prefactors_xy_eq MixedDerivative_def eval_nat_numeral)



section \<open>The mixed derivative of a field\<close>

lemma all_slices_Inr: "all_slices (map (\<lambda>s. Inr (f s)) xs) = Inr (map f xs)"
  by (induction xs) simp_all

lemma length_gather: "length (gather dimension n_a n_b func s) = n_a"
  by (simp add: gather_def)

lemma action_sized:
  "length v = order m \<Longrightarrow> action m v = Inr (map (row_action m v) [0..<order m])"
  by (simp add: action_def)

lemma action_2d_y:
  assumes "order matrix = n_a" and "length func = n_a * n_b"
  shows "action_2d n_a n_b 2 False matrix func =
           Inr (map (\<lambda>i. row_action matrix (gather 2 n_a n_b func (i div n_a)) (i mod n_a))
                  [0..<n_a * n_b])"
proof -
  let ?row = "\<lambda>s. map (row_action matrix (gather 2 n_a n_b func s)) [0..<n_a]"
  have act: "(\<lambda>s. action matrix (gather 2 n_a n_b func s)) = (\<lambda>s. Inr (?row s))"
    using assms(1) by (simp add: action_def length_gather)
  have rows: "all_slices (map (\<lambda>s. action matrix (gather 2 n_a n_b func s)) [0..<n_b]) =
              Inr (map ?row [0..<n_b])"
    unfolding act by (rule all_slices_Inr)
  have entry: "map ?row [0..<n_b] ! (i div n_a) ! (i mod n_a) =
               row_action matrix (gather 2 n_a n_b func (i div n_a)) (i mod n_a)"
    if "i < n_a * n_b" for i
  proof -
    from that have "0 < n_a" by (cases n_a) simp_all
    moreover from that have "i div n_a < n_b"
      by (simp add: less_mult_imp_div_less mult.commute)
    ultimately show ?thesis by simp
  qed
  show ?thesis
    using assms(2) entry by (simp add: action_2d_def rows)
qed

lemma action_2d_x:
  assumes "order matrix = n_a" and "length func = n_a * n_b"
  shows "action_2d n_a n_b 1 False matrix func =
           Inr (map (\<lambda>i. row_action matrix (gather 1 n_a n_b func (i mod n_b)) (i div n_b))
                  [0..<n_a * n_b])"
proof -
  let ?row = "\<lambda>s. map (row_action matrix (gather 1 n_a n_b func s)) [0..<n_a]"
  have act: "(\<lambda>s. action matrix (gather 1 n_a n_b func s)) = (\<lambda>s. Inr (?row s))"
    using assms(1) by (simp add: action_def length_gather del: One_nat_def)
  have rows: "all_slices (map (\<lambda>s. action matrix (gather 1 n_a n_b func s)) [0..<n_b]) =
              Inr (map ?row [0..<n_b])"
    unfolding act by (rule all_slices_Inr)
  have entry: "map ?row [0..<n_b] ! (i mod n_b) ! (i div n_b) =
               row_action matrix (gather 1 n_a n_b func (i mod n_b)) (i div n_b)"
    if "i < n_a * n_b" for i
  proof -
    from that have "0 < n_b" by (cases n_b) simp_all
    moreover from that have "i div n_b < n_a"
      by (simp add: less_mult_imp_div_less)
    ultimately show ?thesis by (simp del: One_nat_def)
  qed
  show ?thesis
    using assms(2) entry by (simp add: action_2d_def rows del: One_nat_def)
qed

lemma scale_loop:
  "k \<le> length v \<Longrightarrow> k \<le> length P \<Longrightarrow>
   for_loop_err k (\<lambda>i f. if i < length P then store f i (f ! i * P ! i) else Inl OutOfRange) v =
   Inr (map (\<lambda>i. v ! i * P ! i) [0..<k] @ drop k v)"
proof (induction k)
  case 0
  show ?case by (simp add: for_loop_err_0)
next
  case (Suc k)
  then have k: "k < length v" "k < length P" by simp_all
  let ?q = "map (\<lambda>i. v ! i * P ! i) [0..<k] @ drop k v"
  have qk: "?q ! k = v ! k"
    using k by (simp add: nth_append)
  have "?q[k := v ! k * P ! k] = map (\<lambda>i. v ! i * P ! i) [0..<k] @ (drop k v)[0 := v ! k * P ! k]"
    by (simp add: list_update_append)
  also have "(drop k v)[0 := v ! k * P ! k] = v ! k * P ! k # drop (Suc k) v"
    using k by (simp add: Cons_nth_drop_Suc [symmetric])
  finally have upd: "?q[k := v ! k * P ! k] =
      map (\<lambda>i. v ! i * P ! i) [0..<Suc k] @ drop (Suc k) v"
    by simp
  have "store ?q k (?q ! k * P ! k) = Inr (?q[k := v ! k * P ! k])"
    using k by (simp add: store_def qk)
  with Suc k upd show ?case
    by (simp add: for_loop_err_Suc)
qed

lemma d2dxdy_eq:
  assumes "sized m" and "length field = order (d1dx1 m) * order (d1dy1 m)"
  defines "n_x \<equiv> order (d1dx1 m)" and "n_y \<equiv> order (d1dy1 m)"
  defines "f1 \<equiv> map (\<lambda>i. row_action (d1dy1 m) (gather 2 n_y n_x field (i div n_y)) (i mod n_y))
                  [0..<n_y * n_x]"
  defines "f2 \<equiv> map (\<lambda>i. row_action (d1dx1 m) (gather 1 n_x n_y f1 (i mod n_y)) (i div n_y))
                  [0..<n_x * n_y]"
  shows "d2dxdy m field = Inr (map (\<lambda>i. f2 ! i * prefactors m ! i) [0..<n_x * n_y])"
proof -
  have s1: "action_2d n_y n_x 2 False (d1dy1 m) field = Inr f1"
    unfolding f1_def using assms(2) by (intro action_2d_y) (simp_all add: n_x_def n_y_def)
  have "length f1 = n_x * n_y" by (simp add: f1_def)
  then have s2: "action_2d n_x n_y 1 False (d1dx1 m) f1 = Inr f2"
    unfolding f2_def by (intro action_2d_x) (simp_all add: n_x_def)
  have l2: "length f2 = n_x * n_y" by (simp add: f2_def)
  have lp: "length (prefactors m) = n_x * n_y"
    using assms(1) by (simp add: sized_def n_x_def n_y_def)
  have "for_loop_err (n_x * n_y)
          (\<lambda>i f. if i < length (prefactors m) then store f i (f ! i * prefactors m ! i)
                 else Inl OutOfRange) f2 =
        Inr (map (\<lambda>i. f2 ! i * prefactors m ! i) [0..<n_x * n_y] @ drop (n_x * n_y) f2)"
    by (rule scale_loop) (simp_all add: l2 lp)
  then show ?thesis
    using s1 s2 l2 by (simp add: d2dxdy_def Let_def n_x_def [symmetric] n_y_def [symmetric])
qed


lemma flat_less: "ix < n_x \<Longrightarrow> iy < n_y \<Longrightarrow> ix * n_y + iy < n_x * (n_y::nat)"
proof -
  assume ix: "ix < n_x" and iy: "iy < n_y"
  have "ix * n_y + iy < ix * n_y + n_y" using iy by simp
  also have "\<dots> = Suc ix * n_y" by simp
  also have "\<dots> \<le> n_x * n_y" using ix by (intro mult_le_mono1) simp
  finally show ?thesis .
qed

text \<open>
  Claim C3: for every input field of length \<open>n_x * n_y\<close>, \<^verbatim>\<open>d2dxdy(field)\<close> returns a field of
  the same length whose entry at each flattened index equals the prefactor at that index
  times the result of first applying the y-axis operator along the y-direction and then
  the x-axis operator along the x-direction. The index \<open>ix * n_y + iy\<close> holds row \<open>ix\<close> of
  the x-axis operator on the sequence, over \<open>jx\<close>, of row \<open>iy\<close> of the y-axis operator on
  the x-slice \<open>jx\<close> of the field. The instance is one whose prefactor field has the size
  the constructor gave it.
\<close>

theorem d2dxdy_entries:
  assumes "sized m" and "length field = order (d1dx1 m) * order (d1dy1 m)"
  shows "\<exists>r. d2dxdy m field = Inr r
           \<and> length r = order (d1dx1 m) * order (d1dy1 m)
           \<and> (\<forall>ix < order (d1dx1 m). \<forall>iy < order (d1dy1 m).
                 r ! (ix * order (d1dy1 m) + iy) =
                 prefactors m ! (ix * order (d1dy1 m) + iy)
                 * row_action (d1dx1 m)
                     (map (\<lambda>jx. row_action (d1dy1 m)
                                   (map (\<lambda>jy. field ! (jx * order (d1dy1 m) + jy))
                                      [0..<order (d1dy1 m)])
                                   iy)
                        [0..<order (d1dx1 m)])
                     ix)"
proof -
  define n_x where "n_x = order (d1dx1 m)"
  define n_y where "n_y = order (d1dy1 m)"
  define f1 where
    "f1 = map (\<lambda>i. row_action (d1dy1 m) (gather 2 n_y n_x field (i div n_y)) (i mod n_y))
            [0..<n_y * n_x]"
  define f2 where
    "f2 = map (\<lambda>i. row_action (d1dx1 m) (gather 1 n_x n_y f1 (i mod n_y)) (i div n_y))
            [0..<n_x * n_y]"
  define r where "r = map (\<lambda>i. f2 ! i * prefactors m ! i) [0..<n_x * n_y]"
  have run: "d2dxdy m field = Inr r"
    unfolding r_def f2_def f1_def n_x_def n_y_def using assms by (rule d2dxdy_eq)
  have len: "length r = n_x * n_y"
    by (simp add: r_def)
  have entry: "r ! (ix * n_y + iy) =
        prefactors m ! (ix * n_y + iy)
        * row_action (d1dx1 m)
            (map (\<lambda>jx. row_action (d1dy1 m) (map (\<lambda>jy. field ! (jx * n_y + jy)) [0..<n_y]) iy)
               [0..<n_x])
            ix"
    if ix: "ix < n_x" and iy: "iy < n_y" for ix iy
  proof -
    have i: "ix * n_y + iy < n_x * n_y"
      using ix iy by (rule flat_less)
    have dm: "(ix * n_y + iy) div n_y = ix" "(ix * n_y + iy) mod n_y = iy"
      using iy by simp_all
    have inner: "f1 ! (jx * n_y + iy) =
          row_action (d1dy1 m) (map (\<lambda>jy. field ! (jx * n_y + jy)) [0..<n_y]) iy"
      if jx: "jx < n_x" for jx
    proof -
      have "jx * n_y + iy < n_y * n_x"
        using flat_less [OF jx iy] by (simp add: mult.commute)
      moreover have "(jx * n_y + iy) div n_y = jx" "(jx * n_y + iy) mod n_y = iy"
        using iy by simp_all
      ultimately show ?thesis
        by (simp add: f1_def gather_def flat_index_def)
    qed
    have slice: "gather 1 n_x n_y f1 iy =
          map (\<lambda>jx. row_action (d1dy1 m) (map (\<lambda>jy. field ! (jx * n_y + jy)) [0..<n_y]) iy)
            [0..<n_x]"
      using inner by (simp add: gather_def flat_index_def del: One_nat_def)
    have "f2 ! (ix * n_y + iy) = row_action (d1dx1 m) (gather 1 n_x n_y f1 iy) ix"
      using i dm by (simp add: f2_def del: One_nat_def)
    then show ?thesis
      using i by (simp add: r_def slice del: One_nat_def)
  qed
  from run len entry show ?thesis
    unfolding n_x_def n_y_def by blast
qed

theorem d2dxdy_entries_witness:
  "sized (MixedDerivative
            \<lparr>bandwidth = 1, order = 3, diagonals = [[0, - 1 / 2, - 1], [- 1, 0, 1], [1, 1 / 2, 0]]\<rparr>
            \<lparr>bandwidth = 1, order = 2, diagonals = [[0, - 1], [- 1, 1], [1, 0]]\<rparr>)
   \<and> length [0, 0, 0, 1, 0, 2 :: real] = 3 * 2
   \<and> (\<exists>r. d2dxdy
             (MixedDerivative
                \<lparr>bandwidth = 1, order = 3,
                   diagonals = [[0, - 1 / 2, - 1], [- 1, 0, 1], [1, 1 / 2, 0]]\<rparr>
                \<lparr>bandwidth = 1, order = 2, diagonals = [[0, - 1], [- 1, 1], [1, 0]]\<rparr>)
             [0, 0, 0, 1, 0, 2] = Inr r
          \<and> length r = 6 \<and> r = [1, 1, 1, 1, 1, 1])"
proof -
  let ?m = "MixedDerivative
              \<lparr>bandwidth = 1, order = 3, diagonals = [[0, - 1 / 2, - 1], [- 1, 0, 1], [1, 1 / 2, 0]]\<rparr>
              \<lparr>bandwidth = 1, order = 2, diagonals = [[0, - 1], [- 1, 1], [1, 0]]\<rparr>"
  have h: "sized ?m" by (simp add: sized_def MixedDerivative_def)
  have l: "length [0, 0, 0, 1, 0, 2 :: real] = order (d1dx1 ?m) * order (d1dy1 ?m)"
    by (simp add: MixedDerivative_def)
  from d2dxdy_entries [OF h l] obtain r where
    "d2dxdy ?m [0, 0, 0, 1, 0, 2] = Inr r" "length r = order (d1dx1 ?m) * order (d1dy1 ?m)"
    by blast
  then have "d2dxdy ?m [0, 0, 0, 1, 0, 2] = Inr r \<and> length r = 6"
    by (simp add: MixedDerivative_def)
  moreover have "d2dxdy ?m [0, 0, 0, 1, 0, 2] = Inr [1, 1, 1, 1, 1, 1]"
    by code_simp
  ultimately show ?thesis using h by auto
qed

text \<open>
  Claim C7: the operator built by \<^verbatim>\<open>d1dx1::uniform::c2b1\<close> on the uniform grid
  \<open>[0, 1, 2, 3, 4]\<close>, applied through \<^verbatim>\<open>action\<close> to \<open>v = [0, 1, 4, 9, 16]\<close>, gives an output
  whose entry 0 is \<open>(v[1] - v[0]) / 1 = 1\<close>, whose entry 2 is \<open>(v[3] - v[1]) / 2 = 4\<close> and
  whose entry 4, the backward difference, is 7. The whole output is \<open>[1, 2, 4, 6, 7]\<close>.
\<close>

theorem c2b1_on_squares:
  "(case c2b1 [0, 1, 2, 3, 4] of Inl e \<Rightarrow> Inl e | Inr m \<Rightarrow> action m [0, 1, 4, 9, 16]) =
     Inr [(1 - 0) / 1, 2, (9 - 1) / 2, 6, 7]"
  by code_simp

end
